theory Spec2Isabelle
  imports Main
begin

section \<open>Data model of the aggregated SPDZ REST client\<close>

type_synonym url = string
type_synonym client_id = string
type_synonym bytes = "nat list"

text \<open>
  Modelled from the spec: ProxyStatusCodes.js is not part of the sources at hand. The
  specification gives the closed enumeration Connected, Disconnected, Failure.
\<close>

datatype ProxyStatusCode = Disconnected | Connected | Failure

text \<open>
  A rejection reason. The aggregate functions create plain \<open>Error\<close> objects themselves;
  \<open>NoContentError\<close> is the distinct class that consumeDataFromProxy rejects with when
  no data is available yet (see the doc comment of consumeDataFromProxies).
\<close>

datatype reason = Error string | NoContentError string

text \<open>
  One entry of spdzProxyList. A JavaScript object may lack a key, so both keys are
  optional: \<open>None\<close> is an absent key.
\<close>

record proxy =
  url :: "url option"
  encryptionKey :: "string option"

text \<open>
  The result objects \<open>{id, status}\<close> and \<open>{id, status, clientId}\<close>; the field \<open>id\<close> is
  named \<open>id_pos\<close> here, and \<open>clientId\<close> is \<open>None\<close> where the object has no such key.
\<close>

record outcome =
  id_pos :: nat
  status :: ProxyStatusCode
  clientId :: "client_id option"

subsection \<open>allProxiesConnected\<close>

text \<open>
  The value of a property read from a JavaScript array: a number, or \<open>undefined\<close> when
  the array has no such property. An \<open>Array\<close> has \<open>length\<close> and no \<open>size\<close>.
\<close>

datatype js_value = Undefined | Number nat

definition array_size :: "'a list \<Rightarrow> js_value" where
  "array_size xs = Undefined"

definition array_length :: "'a list \<Rightarrow> js_value" where
  "array_length xs = Number (length xs)"

definition allProxiesConnected :: "outcome list \<Rightarrow> bool" where
  "allProxiesConnected spdzConnectionStatusList =
     (if array_size spdzConnectionStatusList = Number 0 then False
      else array_length
             (filter (\<lambda>spdzProxyConnection. status spdzProxyConnection = Connected)
                spdzConnectionStatusList)
           = array_length spdzConnectionStatusList)"

section \<open>The session store (ClientIds)\<close>

text \<open>
  Modelled from the spec: ClientIds.js is not part of the sources at hand. The
  specification describes a mapping from endpoint to session identifier with
  \<open>reset\<close> (clears all mappings), \<open>store\<close> (inserts or overwrites), \<open>exists\<close>, \<open>get\<close> and
  \<open>remove\<close>. The store is threaded explicitly; \<open>getClientId\<close> yields \<open>None\<close> (JavaScript's
  \<open>undefined\<close>) for an endpoint without a session.
\<close>

type_synonym store = "url \<rightharpoonup> client_id"

text \<open>Modelled from the spec: \<open>reset()\<close> of the missing ClientIds clears all mappings.\<close>

definition resetClientIds :: store where
  "resetClientIds = Map.empty"

text \<open>Modelled from the spec: \<open>store(endpoint, sessionId)\<close> of the missing ClientIds inserts or
  overwrites.\<close>

definition storeClientId :: "url \<Rightarrow> client_id \<Rightarrow> store \<Rightarrow> store" where
  "storeClientId u c m = m(u \<mapsto> c)"

text \<open>Modelled from the spec: \<open>exists(endpoint)\<close> of the missing ClientIds.\<close>

definition clientIdExists :: "store \<Rightarrow> url \<Rightarrow> bool" where
  "clientIdExists m u = (m u \<noteq> None)"

text \<open>Modelled from the spec: \<open>get(endpoint)\<close> of the missing ClientIds; the specification
  requires \<open>exists(endpoint)\<close>, and the lookup of an endpoint without a session is \<open>None\<close>.\<close>

definition getClientId :: "store \<Rightarrow> url \<Rightarrow> client_id option" where
  "getClientId m u = m u"

text \<open>Modelled from the spec: \<open>remove(endpoint)\<close> of the missing ClientIds.\<close>

definition removeClientId :: "url \<Rightarrow> store \<Rightarrow> store" where
  "removeClientId u m = m(u := None)"

section \<open>Input validation (verifyRequiredKeys)\<close>

text \<open>
  Modelled from the spec: verifyRequiredKeys.js is not part of the sources at hand. The
  specification's input validation contract: every element of a list-of-records
  argument must expose the required key.
\<close>

text \<open>Modelled from the spec: whether a record of the list exposes a key; the missing
  verifyRequiredKeys looks for it on every element.\<close>

definition has_key :: "proxy \<Rightarrow> string \<Rightarrow> bool" where
  "has_key p k =
     (if k = ''url'' then url p \<noteq> None
      else if k = ''encryptionKey'' then encryptionKey p \<noteq> None
      else False)"

text \<open>Modelled from the spec: the missing verifyRequiredKeys holds when every element of
  the list exposes the key.\<close>

definition verifyRequiredKeys :: "proxy list \<Rightarrow> string \<Rightarrow> bool" where
  "verifyRequiredKeys objectList k = list_all (\<lambda>p. has_key p k) objectList"

section \<open>Transport requests, promises and Promise.all\<close>

text \<open>
  The five operations of SpdzApi are external collaborators. Each aggregate function
  takes the one it calls as a parameter: a function from the position of the request
  within the aggregated call and the arguments passed by the source to what the
  returned promise settles with (\<open>Inl\<close> a rejection, \<open>Inr\<close> a fulfilment). The position
  lets two requests with equal arguments be answered differently. Every request made
  is appended to the log \<open>sent\<close> of the world.
\<close>

datatype request =
    ConnectReq url string "client_id option" "string option"
  | CheckReq url string "client_id option"
  | DisconnectReq url string "client_id option"
  | ConsumeReq url string "client_id option" nat
  | SendReq url string "client_id option" string

record world =
  clientIds :: store
  sent :: "request list"

text \<open>
  One element of the array handed to \<open>Promise.all\<close>. \<open>Settled r\<close> is a promise made by
  \<open>Promise.resolve\<close> or \<open>Promise.reject\<close>: settled when it is created, no request made.
  \<open>Awaits q (h, r)\<close> is a promise behind the transport request \<open>q\<close>: when the response
  arrives, the completion handler performs the store update \<open>h\<close> and the promise
  settles with \<open>r\<close>.
\<close>

datatype 'a task =
    Settled "reason + 'a"
  | Awaits request "(store \<Rightarrow> store) \<times> (reason + 'a)"

fun is_pending :: "'a task \<Rightarrow> bool" where
  "is_pending (Settled r) = False"
| "is_pending (Awaits q hr) = True"

fun request_of :: "'a task \<Rightarrow> request list" where
  "request_of (Settled r) = []"
| "request_of (Awaits q hr) = [q]"

fun handler_of :: "'a task \<Rightarrow> store \<Rightarrow> store" where
  "handler_of (Settled r) = (\<lambda>m. m)"
| "handler_of (Awaits q hr) = fst hr"

fun settles :: "'a task \<Rightarrow> reason + 'a" where
  "settles (Settled r) = r"
| "settles (Awaits q hr) = snd hr"

text \<open>
  \<open>Array.prototype.map\<close> with a callback of the element and its index.
\<close>

definition mapi :: "('a \<Rightarrow> nat \<Rightarrow> 'b) \<Rightarrow> 'a list \<Rightarrow> 'b list" where
  "mapi f xs = map (\<lambda>(index, x). f x index) (List.enumerate 0 xs)"

text \<open>
  The order in which the promises settle. Promises settled at creation come first, in
  array order. The responses of the transport arrive in an order the program does not
  control: the schedule \<open>sched\<close> lists positions in order of arrival; positions it does
  not mention arrive last, in array order. Every list of numbers is a schedule.
\<close>

definition settle_order :: "nat list \<Rightarrow> 'a task list \<Rightarrow> nat list" where
  "settle_order sched ts =
     filter (\<lambda>i. \<not> is_pending (ts ! i)) [0..<length ts]
     @ filter (\<lambda>i. i < length ts \<and> is_pending (ts ! i)) (remdups sched)
     @ filter (\<lambda>i. is_pending (ts ! i) \<and> i \<notin> set sched) [0..<length ts]"

text \<open>
  \<open>Promise.all\<close>: rejects with the reason of the first promise to reject, in settle
  order; fulfils with the values in array order when none rejects.
\<close>

definition rejections :: "nat list \<Rightarrow> (reason + 'a) list \<Rightarrow> reason list" where
  "rejections order rs =
     List.map_filter (\<lambda>i. case rs ! i of Inl e \<Rightarrow> Some e | Inr v \<Rightarrow> None) order"

definition fulfilments :: "(reason + 'a) list \<Rightarrow> 'a list" where
  "fulfilments rs = List.map_filter (\<lambda>r. case r of Inl e \<Rightarrow> None | Inr v \<Rightarrow> Some v) rs"

definition Promise_all :: "nat list \<Rightarrow> (reason + 'a) list \<Rightarrow> reason + 'a list" where
  "Promise_all order rs =
     (case rejections order rs of
        [] \<Rightarrow> Inr (fulfilments rs)
      | e # es \<Rightarrow> Inl e)"

text \<open>
  Running the array of promises to quiescence: the requests were sent in array order
  while the array was built, the handlers run in settle order, and the caller gets
  what \<open>Promise.all\<close> settles with.
\<close>

definition await_all ::
  "nat list \<Rightarrow> 'a task list \<Rightarrow> world \<Rightarrow> (reason + 'a list) \<times> world" where
  "await_all sched ts w =
     (let order = settle_order sched ts in
      (Promise_all order (map settles ts),
       w\<lparr>clientIds := fold (\<lambda>i. handler_of (ts ! i)) order (clientIds w),
         sent := sent w @ concat (map request_of ts)\<rparr>))"

section \<open>The aggregate functions (SpdzApiAggregate)\<close>

subsection \<open>connectToSPDZ\<close>

definition connect_task ::
  "(nat \<Rightarrow> url \<Rightarrow> string \<Rightarrow> client_id option \<Rightarrow> string option \<Rightarrow> reason + client_id) \<Rightarrow>
   string \<Rightarrow> client_id option \<Rightarrow> string option \<Rightarrow> url \<Rightarrow> nat \<Rightarrow> outcome task" where
  "connect_task connectProxyToEngine spdzApiRoot cid clientPublicKey u index =
     Awaits (ConnectReq u spdzApiRoot cid clientPublicKey)
       (case connectProxyToEngine index u spdzApiRoot cid clientPublicKey of
          Inr generatedClientId \<Rightarrow>
            (storeClientId u generatedClientId,
             Inr \<lparr>id_pos = index, status = Connected, clientId = Some generatedClientId\<rparr>)
        | Inl ex \<Rightarrow>
            (\<lambda>m. m, Inr \<lparr>id_pos = index, status = Failure, clientId = None\<rparr>))"

definition connectToSPDZ ::
  "(nat \<Rightarrow> url \<Rightarrow> string \<Rightarrow> client_id option \<Rightarrow> string option \<Rightarrow> reason + client_id) \<Rightarrow>
   nat list \<Rightarrow> url list \<Rightarrow> string \<Rightarrow> client_id option \<Rightarrow> string option \<Rightarrow> world \<Rightarrow>
   (reason + outcome list) \<times> world" where
  "connectToSPDZ connectProxyToEngine sched spdzProxyUrlList spdzApiRoot cid clientPublicKey w =
     (let w0 = w\<lparr>clientIds := resetClientIds\<rparr>;
          connectList =
            mapi (connect_task connectProxyToEngine spdzApiRoot cid clientPublicKey)
              spdzProxyUrlList
      in await_all sched connectList w0)"

subsection \<open>checkProxies\<close>

definition check_task ::
  "(nat \<Rightarrow> url \<Rightarrow> string \<Rightarrow> client_id option \<Rightarrow> reason + unit) \<Rightarrow>
   store \<Rightarrow> string \<Rightarrow> url \<Rightarrow> nat \<Rightarrow> outcome task" where
  "check_task checkEngineConnection m spdzApiRoot u index =
     (if \<not> clientIdExists m u
      then Settled (Inr \<lparr>id_pos = index, status = Failure, clientId = None\<rparr>)
      else Awaits (CheckReq u spdzApiRoot (getClientId m u))
        (case checkEngineConnection index u spdzApiRoot (getClientId m u) of
           Inr ok \<Rightarrow> (\<lambda>m. m, Inr \<lparr>id_pos = index, status = Connected, clientId = None\<rparr>)
         | Inl ex \<Rightarrow> (\<lambda>m. m, Inr \<lparr>id_pos = index, status = Disconnected, clientId = None\<rparr>)))"

definition checkProxies ::
  "(nat \<Rightarrow> url \<Rightarrow> string \<Rightarrow> client_id option \<Rightarrow> reason + unit) \<Rightarrow>
   nat list \<Rightarrow> url list \<Rightarrow> string \<Rightarrow> world \<Rightarrow> (reason + outcome list) \<times> world" where
  "checkProxies checkEngineConnection sched spdzProxyUrlList spdzApiRoot w =
     (let checkList =
            mapi (check_task checkEngineConnection (clientIds w) spdzApiRoot) spdzProxyUrlList
      in await_all sched checkList w)"

subsection \<open>disconnectFromSPDZ\<close>

text \<open>
  In the three functions below an entry without \<open>url\<close> cannot reach the per-proxy
  callback, the list having been rejected by the validation; the callback treats it as
  an endpoint without a session, none being stored under an absent url.
\<close>

definition disconnect_task ::
  "(nat \<Rightarrow> url \<Rightarrow> string \<Rightarrow> client_id option \<Rightarrow> reason + unit) \<Rightarrow>
   store \<Rightarrow> string \<Rightarrow> proxy \<Rightarrow> nat \<Rightarrow> outcome task" where
  "disconnect_task disconnectProxyFromEngine m spdzApiRoot p index =
     (case url p of
        None \<Rightarrow> Settled (Inr \<lparr>id_pos = index, status = Disconnected, clientId = None\<rparr>)
      | Some u \<Rightarrow>
          if \<not> clientIdExists m u
          then Settled (Inr \<lparr>id_pos = index, status = Disconnected, clientId = None\<rparr>)
          else Awaits (DisconnectReq u spdzApiRoot (getClientId m u))
            (case disconnectProxyFromEngine index u spdzApiRoot (getClientId m u) of
               Inr ok \<Rightarrow>
                 (removeClientId u,
                  Inr \<lparr>id_pos = index, status = Disconnected, clientId = None\<rparr>)
             | Inl ex \<Rightarrow>
                 (removeClientId u,
                  Inr \<lparr>id_pos = index, status = Disconnected, clientId = None\<rparr>)))"

definition disconnectFromSPDZ ::
  "(nat \<Rightarrow> url \<Rightarrow> string \<Rightarrow> client_id option \<Rightarrow> reason + unit) \<Rightarrow>
   nat list \<Rightarrow> proxy list \<Rightarrow> string \<Rightarrow> world \<Rightarrow> (reason + outcome list) \<times> world" where
  "disconnectFromSPDZ disconnectProxyFromEngine sched spdzProxyList spdzApiRoot w =
     (if \<not> verifyRequiredKeys spdzProxyList ''url''
      then (Inl (Error ''Each spdzProxyList entry must contain keys: url.''), w)
      else
        let disconnectList =
              mapi (disconnect_task disconnectProxyFromEngine (clientIds w) spdzApiRoot)
                spdzProxyList
        in await_all sched disconnectList w)"

subsection \<open>consumeDataFromProxies\<close>

definition not_connected :: "url option \<Rightarrow> reason" where
  "not_connected u =
     Error (''Not connected to SPDZ for proxy ''
            @ (case u of None \<Rightarrow> ''undefined'' | Some s \<Rightarrow> s) @ ''.'')"

definition consume_task ::
  "(nat \<Rightarrow> url \<Rightarrow> string \<Rightarrow> client_id option \<Rightarrow> nat \<Rightarrow> reason + bytes) \<Rightarrow>
   (string option \<Rightarrow> bytes \<Rightarrow> reason + bytes) \<Rightarrow>
   store \<Rightarrow> string \<Rightarrow> bool \<Rightarrow> nat \<Rightarrow> proxy \<Rightarrow> nat \<Rightarrow> bytes task" where
  "consume_task consumeDataFromProxy decrypt m spdzApiRoot encrypted waitTimeoutMs p index =
     (case url p of
        None \<Rightarrow> Settled (Inl (not_connected None))
      | Some u \<Rightarrow>
          if \<not> clientIdExists m u
          then Settled (Inl (not_connected (Some u)))
          else Awaits (ConsumeReq u spdzApiRoot (getClientId m u) waitTimeoutMs)
            (case consumeDataFromProxy index u spdzApiRoot (getClientId m u) waitTimeoutMs of
               Inr binaryPayload \<Rightarrow>
                 (\<lambda>m. m,
                  if encrypted then decrypt (encryptionKey p) binaryPayload
                  else Inr binaryPayload)
             | Inl ex \<Rightarrow> (\<lambda>m. m, Inl ex)))"

definition consumeDataFromProxies ::
  "(nat \<Rightarrow> url \<Rightarrow> string \<Rightarrow> client_id option \<Rightarrow> nat \<Rightarrow> reason + bytes) \<Rightarrow>
   (string option \<Rightarrow> bytes \<Rightarrow> reason + bytes) \<Rightarrow>
   nat list \<Rightarrow> proxy list \<Rightarrow> string \<Rightarrow> bool \<Rightarrow> nat \<Rightarrow> world \<Rightarrow>
   (reason + bytes list) \<times> world" where
  "consumeDataFromProxies consumeDataFromProxy decrypt sched spdzProxyList spdzApiRoot
       encrypted waitTimeoutMs w =
     (if \<not> verifyRequiredKeys spdzProxyList ''url''
      then (Inl (Error ''Each spdzProxyList entry must contain keys: url.''), w)
      else
        let consumeList =
              mapi (consume_task consumeDataFromProxy decrypt (clientIds w) spdzApiRoot
                      encrypted waitTimeoutMs)
                spdzProxyList
        in await_all sched consumeList w)"

subsection \<open>sendInputsToProxies\<close>

text \<open>
  \<open>toNativeHexString\<close> (a method of the Gfp inputs), \<open>base64Encode\<close> and
  \<open>JSON.stringify\<close> are parameters; \<open>'g\<close> is the type of the inputs.
\<close>

definition send_task ::
  "(nat \<Rightarrow> url \<Rightarrow> string \<Rightarrow> client_id option \<Rightarrow> string \<Rightarrow> reason + unit) \<Rightarrow>
   (string list \<Rightarrow> string) \<Rightarrow> store \<Rightarrow> string \<Rightarrow> string list \<Rightarrow> proxy \<Rightarrow> nat \<Rightarrow> unit task" where
  "send_task sendDataToProxy JSON_stringify m spdzApiRoot payload p index =
     (case url p of
        None \<Rightarrow> Settled (Inl (not_connected None))
      | Some u \<Rightarrow>
          if \<not> clientIdExists m u
          then Settled (Inl (not_connected (Some u)))
          else Awaits (SendReq u spdzApiRoot (getClientId m u) (JSON_stringify payload))
            (\<lambda>m. m,
             sendDataToProxy index u spdzApiRoot (getClientId m u) (JSON_stringify payload)))"

definition sendInputsToProxies ::
  "(nat \<Rightarrow> url \<Rightarrow> string \<Rightarrow> client_id option \<Rightarrow> string \<Rightarrow> reason + unit) \<Rightarrow>
   ('g \<Rightarrow> string) \<Rightarrow> (string \<Rightarrow> string) \<Rightarrow> (string list \<Rightarrow> string) \<Rightarrow>
   nat list \<Rightarrow> proxy list \<Rightarrow> string \<Rightarrow> 'g list \<Rightarrow> world \<Rightarrow> (reason + unit list) \<times> world" where
  "sendInputsToProxies sendDataToProxy toNativeHexString base64Encode JSON_stringify sched
       spdzProxyList spdzApiRoot inputList w =
     (if \<not> verifyRequiredKeys spdzProxyList ''url''
      then (Inl (Error ''Each spdzProxyList entry must contain keys: url.''), w)
      else
        let payload = map (\<lambda>gfpInput. base64Encode (toNativeHexString gfpInput)) inputList;
            sendInputsList =
              mapi (send_task sendDataToProxy JSON_stringify (clientIds w) spdzApiRoot payload)
                spdzProxyList
        in await_all sched sendInputsList w)"

section \<open>Properties\<close>

subsection \<open>allProxiesConnected\<close>

lemma filter_all_length:
  "(length (filter P xs) = length xs) = (\<forall>x \<in> set xs. P x)"
  by (metis filter_id_conv length_filter_less less_irrefl)

text \<open>
  C1 (the code as it stands): on the empty array the guard \<open>size === 0\<close> compares
  \<open>undefined\<close> with 0 and does not fire, so the comparison of the two lengths, 0 === 0,
  decides: allProxiesConnected([]) is true, where the guard is written to return false.
\<close>

theorem allProxiesConnected_empty:
  "allProxiesConnected [] = True"
  by (simp add: allProxiesConnected_def array_size_def array_length_def)

text \<open>
  For any array, allProxiesConnected is true exactly when every status is Connected;
  whether the array is empty plays no part.
\<close>

lemma allProxiesConnected_iff:
  "allProxiesConnected xs = list_all (\<lambda>c. status c = Connected) xs"
  by (simp add: allProxiesConnected_def array_size_def array_length_def
      filter_all_length list_all_iff)

subsection \<open>Promise.all and the run of an array of promises\<close>

lemma length_mapi [simp]: "length (mapi f xs) = length xs"
  by (simp add: mapi_def)

lemma nth_mapi [simp]: "i < length xs \<Longrightarrow> mapi f xs ! i = f (xs ! i) i"
  by (simp add: mapi_def nth_enumerate_eq)

lemma set_settle_order: "set (settle_order sched ts) = {0..<length ts}"
  by (auto simp: settle_order_def)

lemma rejections_empty_iff:
  "(rejections order rs = []) = (\<forall>i \<in> set order. \<not> isl (rs ! i))"
  by (auto simp: rejections_def map_filter_def filter_empty_conv isl_def split: sum.splits)

lemma rejections_member:
  "e \<in> set (rejections order rs) \<Longrightarrow> \<exists>i \<in> set order. rs ! i = Inl e"
  by (auto simp: rejections_def map_filter_def split: sum.splits)

lemma fulfilments_map_Inr: "fulfilments (map Inr vs) = vs"
  by (induction vs) (simp_all add: fulfilments_def map_filter_simps)

lemma all_Inr_map: "\<forall>r \<in> set rs. \<not> isl r \<Longrightarrow> map Inr (fulfilments rs) = rs"
  by (induction rs) (auto simp: fulfilments_def map_filter_simps isl_def split: sum.splits)

lemma Promise_all_Inr_iff:
  assumes "set order = {0..<length rs}"
  shows "(Promise_all order rs = Inr vs) = (rs = map Inr vs)"
proof
  assume "Promise_all order rs = Inr vs"
  then have none: "rejections order rs = []" and vs: "vs = fulfilments rs"
    by (auto simp: Promise_all_def split: list.splits)
  from none assms have "\<forall>i < length rs. \<not> isl (rs ! i)"
    by (simp add: rejections_empty_iff)
  then have "\<forall>r \<in> set rs. \<not> isl r"
    by (auto simp: in_set_conv_nth)
  with vs show "rs = map Inr vs"
    by (simp add: all_Inr_map)
next
  assume eq: "rs = map Inr vs"
  with assms have "rejections order rs = []"
    by (auto simp: rejections_empty_iff)
  with eq show "Promise_all order rs = Inr vs"
    by (simp add: Promise_all_def fulfilments_map_Inr)
qed

lemma Promise_all_Inl:
  "Promise_all order rs = Inl e \<Longrightarrow> \<exists>i \<in> set order. rs ! i = Inl e"
  by (rule rejections_member) (auto simp: Promise_all_def split: list.splits)

lemma Promise_all_rejects_iff:
  assumes "set order = {0..<length rs}"
  shows "isl (Promise_all order rs) = (\<exists>i < length rs. isl (rs ! i))"
  using assms rejections_empty_iff [of order rs]
  by (auto simp: Promise_all_def split: list.splits)

lemma fst_await_all:
  "fst (await_all sched ts w) = Promise_all (settle_order sched ts) (map settles ts)"
  by (simp add: await_all_def Let_def)

lemma clientIds_await_all:
  "clientIds (snd (await_all sched ts w)) =
     fold (\<lambda>i. handler_of (ts ! i)) (settle_order sched ts) (clientIds w)"
  by (simp add: await_all_def Let_def)

lemma sent_await_all:
  "sent (snd (await_all sched ts w)) = sent w @ concat (map request_of ts)"
  by (simp add: await_all_def Let_def)

lemma await_all_Inr_iff:
  "(fst (await_all sched ts w) = Inr vs) =
     (length vs = length ts \<and> (\<forall>i < length ts. settles (ts ! i) = Inr (vs ! i)))"
proof -
  have "(fst (await_all sched ts w) = Inr vs) = (map settles ts = map Inr vs)"
    unfolding fst_await_all
    by (rule Promise_all_Inr_iff) (simp add: set_settle_order)
  also have "\<dots> = (length vs = length ts \<and> (\<forall>i < length ts. settles (ts ! i) = Inr (vs ! i)))"
    by (auto simp: list_eq_iff_nth_eq)
  finally show ?thesis .
qed

lemma await_all_rejects_iff:
  "isl (fst (await_all sched ts w)) = (\<exists>i < length ts. isl (settles (ts ! i)))"
proof -
  have "isl (fst (await_all sched ts w)) =
          (\<exists>i < length (map settles ts). isl (map settles ts ! i))"
    unfolding fst_await_all
    by (rule Promise_all_rejects_iff) (simp add: set_settle_order)
  then show ?thesis by auto
qed

lemma await_all_Inl:
  assumes "fst (await_all sched ts w) = Inl e"
  shows "\<exists>i < length ts. settles (ts ! i) = Inl e"
proof -
  from assms obtain i where "i \<in> set (settle_order sched ts)" "map settles ts ! i = Inl e"
    unfolding fst_await_all by (blast dest: Promise_all_Inl)
  then show ?thesis by (auto simp: set_settle_order)
qed

lemma await_all_resolves:
  assumes "\<forall>i < length ts. \<not> isl (settles (ts ! i))"
  shows "\<exists>vs. fst (await_all sched ts w) = Inr vs"
  using assms await_all_rejects_iff [of sched ts w]
  by (cases "fst (await_all sched ts w)") auto

lemma fold_handlers_id:
  "\<forall>i \<in> set order. h i = (\<lambda>m. m) \<Longrightarrow> fold h order (m :: store) = m"
  by (induction order arbitrary: m) auto

subsection \<open>checkProxies\<close>

lemma handler_check_task: "handler_of (check_task c m r u i) = (\<lambda>m. m)"
  by (simp add: check_task_def split: sum.splits)

lemma settles_check_task:
  "settles (check_task c m r u i) =
     Inr \<lparr>id_pos = i,
          status = (if \<not> clientIdExists m u then Failure
                    else if isl (c i u r (getClientId m u)) then Disconnected else Connected),
          clientId = None\<rparr>"
  by (simp add: check_task_def split: sum.splits)

lemma requests_check:
  "concat (map (\<lambda>(index, u). request_of (check_task c m r u index)) (List.enumerate n us)) =
     map (\<lambda>u. CheckReq u r (getClientId m u)) (filter (clientIdExists m) us)"
  by (induction us arbitrary: n) (simp_all add: check_task_def)

text \<open>
  C10: checkProxies leaves the session store as it found it, for every list of urls,
  every prior store, every behaviour of the transport and every arrival order.
\<close>

theorem checkProxies_keeps_store:
  "clientIds (snd (checkProxies c sched us r w)) = clientIds w"
  unfolding checkProxies_def Let_def clientIds_await_all
  by (rule fold_handlers_id) (simp add: set_settle_order nth_mapi handler_check_task)

text \<open>
  C6: checkProxies resolves with one outcome per url, in input order, outcome \<open>i\<close>
  carrying id \<open>i\<close>. A url without a session yields Failure, a url whose check call
  fulfils yields Connected, a url whose check call rejects yields Disconnected. The
  requests made are exactly one CheckReq per url that has a session, with the stored
  client id: none is made for a url without a session.
\<close>

theorem checkProxies_outcomes:
  "\<exists>outs. fst (checkProxies c sched us r w) = Inr outs
      \<and> length outs = length us
      \<and> (\<forall>i < length us.
            id_pos (outs ! i) = i
          \<and> (\<not> clientIdExists (clientIds w) (us ! i) \<longrightarrow> status (outs ! i) = Failure)
          \<and> (clientIdExists (clientIds w) (us ! i) \<longrightarrow>
               (case c i (us ! i) r (getClientId (clientIds w) (us ! i)) of
                  Inr ok \<Rightarrow> status (outs ! i) = Connected
                | Inl ex \<Rightarrow> status (outs ! i) = Disconnected)))
      \<and> sent (snd (checkProxies c sched us r w)) =
          sent w @ map (\<lambda>u. CheckReq u r (getClientId (clientIds w) u))
                     (filter (clientIdExists (clientIds w)) us)"
proof -
  let ?ts = "mapi (check_task c (clientIds w) r) us"
  have "\<forall>i < length ?ts. \<not> isl (settles (?ts ! i))"
    by (simp add: length_mapi nth_mapi settles_check_task)
  then obtain outs where outs: "fst (await_all sched ?ts w) = Inr outs"
    using await_all_resolves by blast
  then have len: "length outs = length us"
    and nth: "\<forall>i < length us. settles (?ts ! i) = Inr (outs ! i)"
    by (simp_all add: await_all_Inr_iff length_mapi)
  have each: "outs ! i = \<lparr>id_pos = i,
          status = (if \<not> clientIdExists (clientIds w) (us ! i) then Failure
                    else if isl (c i (us ! i) r (getClientId (clientIds w) (us ! i)))
                         then Disconnected else Connected),
          clientId = None\<rparr>" if "i < length us" for i
    using nth that by (simp add: nth_mapi settles_check_task)
  have log: "sent (snd (await_all sched ?ts w)) =
          sent w @ map (\<lambda>u. CheckReq u r (getClientId (clientIds w) u))
                     (filter (clientIdExists (clientIds w)) us)"
    by (simp add: sent_await_all mapi_def map_map comp_def case_prod_unfold
        requests_check [unfolded case_prod_unfold])
  show ?thesis
    unfolding checkProxies_def Let_def
    using outs len log by (auto simp: each split: sum.splits)
qed

subsection \<open>connectToSPDZ\<close>

lemma settles_connect_task:
  "settles (connect_task c r cid pk u i) =
     (case c i u r cid pk of
        Inr g \<Rightarrow> Inr \<lparr>id_pos = i, status = Connected, clientId = Some g\<rparr>
      | Inl ex \<Rightarrow> Inr \<lparr>id_pos = i, status = Failure, clientId = None\<rparr>)"
  by (simp add: connect_task_def split: sum.splits)

lemma handler_connect_task:
  "handler_of (connect_task c r cid pk u i) =
     (case c i u r cid pk of Inr g \<Rightarrow> storeClientId u g | Inl ex \<Rightarrow> (\<lambda>m. m))"
  by (simp add: connect_task_def split: sum.splits)

lemma fold_store_exists:
  fixes resp :: "nat \<Rightarrow> reason + client_id" and m :: store
  assumes "(\<exists>j \<in> set order. key j = k \<and> \<not> isl (resp j)) \<or> m k \<noteq> None"
  shows "fold (\<lambda>i. case resp i of Inr g \<Rightarrow> storeClientId (key i) g | Inl ex \<Rightarrow> (\<lambda>m. m))
           order m k \<noteq> None"
  using assms
proof (induction order arbitrary: m)
  case Nil
  then show ?case by simp
next
  case (Cons x xs)
  let ?h = "\<lambda>i. case resp i of Inr g \<Rightarrow> storeClientId (key i) g | Inl ex \<Rightarrow> (\<lambda>m. m)"
  have "(\<exists>j \<in> set xs. key j = k \<and> \<not> isl (resp j)) \<or> ?h x m k \<noteq> None"
    using Cons.prems by (auto simp: storeClientId_def split: sum.splits)
  then have "fold ?h xs (?h x m) k \<noteq> None"
    by (rule Cons.IH)
  then show ?case by simp
qed

lemma fold_store_exact:
  fixes resp :: "nat \<Rightarrow> reason + client_id" and m :: store
  assumes "\<forall>j \<in> set order. key j = k \<longrightarrow> j = i" and "resp i = Inr g" and "key i = k"
    and "i \<in> set order \<or> m k = Some g"
  shows "fold (\<lambda>i. case resp i of Inr g \<Rightarrow> storeClientId (key i) g | Inl ex \<Rightarrow> (\<lambda>m. m))
           order m k = Some g"
  using assms
proof (induction order arbitrary: m)
  case Nil
  then show ?case by simp
next
  case (Cons x xs)
  let ?h = "\<lambda>i. case resp i of Inr g \<Rightarrow> storeClientId (key i) g | Inl ex \<Rightarrow> (\<lambda>m. m)"
  have uniq: "\<forall>j \<in> set xs. key j = k \<longrightarrow> j = i"
    using Cons.prems(1) by simp
  have "i \<in> set xs \<or> ?h x m k = Some g"
  proof (cases "x = i")
    case True
    with Cons.prems(2,3) show ?thesis by (simp add: storeClientId_def)
  next
    case False
    with Cons.prems(1) have "key x \<noteq> k" by auto
    then have "?h x m k = m k"
      by (simp add: storeClientId_def split: sum.splits)
    with False Cons.prems(4) show ?thesis by auto
  qed
  with uniq Cons.prems(2,3) have "fold ?h xs (?h x m) k = Some g"
    by (rule Cons.IH)
  then show ?case by simp
qed

lemma connect_store:
  "clientIds (snd (connectToSPDZ c sched us r cid pk w)) =
     fold (\<lambda>i. case c i (us ! i) r cid pk of
                 Inr g \<Rightarrow> storeClientId (us ! i) g | Inl ex \<Rightarrow> (\<lambda>m. m))
       (settle_order sched (mapi (connect_task c r cid pk) us)) Map.empty"
  unfolding connectToSPDZ_def Let_def clientIds_await_all
  by (rule fold_cong) (simp_all add: set_settle_order handler_connect_task resetClientIds_def)

text \<open>
  C3: connectToSPDZ never rejects. It resolves with one outcome per url, outcome \<open>i\<close>
  carrying id \<open>i\<close>. Where the connect call for position \<open>i\<close> fulfilled with a client id,
  the status is Connected, the outcome carries that client id, the store holds that
  client id for the url once the response has been handled, and at the end the store
  holds a session for the url: that very client id when no other position names the
  same url. Where the call rejected the status is Failure.
\<close>

theorem connectToSPDZ_outcomes:
  "let connectList = mapi (connect_task c r cid pk) us;
       order = settle_order sched connectList;
       result = connectToSPDZ c sched us r cid pk w
   in \<exists>outs. fst result = Inr outs
      \<and> length outs = length us
      \<and> (\<forall>i < length us.
            id_pos (outs ! i) = i
          \<and> (case c i (us ! i) r cid pk of
               Inr g \<Rightarrow>
                 status (outs ! i) = Connected \<and> clientId (outs ! i) = Some g
                 \<and> (\<exists>k < length order. order ! k = i
                       \<and> getClientId
                            (fold (\<lambda>j. handler_of (connectList ! j)) (take (Suc k) order)
                               resetClientIds)
                            (us ! i) = Some g)
                 \<and> clientIdExists (clientIds (snd result)) (us ! i)
                 \<and> ((\<forall>j < length us. us ! j = us ! i \<longrightarrow> j = i) \<longrightarrow>
                      getClientId (clientIds (snd result)) (us ! i) = Some g)
             | Inl ex \<Rightarrow> status (outs ! i) = Failure))"
proof -
  let ?ts = "mapi (connect_task c r cid pk) us"
  let ?order = "settle_order sched ?ts"
  let ?w0 = "w\<lparr>clientIds := resetClientIds\<rparr>"
  let ?m = "clientIds (snd (connectToSPDZ c sched us r cid pk w))"
  have "\<forall>i < length ?ts. \<not> isl (settles (?ts ! i))"
    by (simp add: settles_connect_task split: sum.splits)
  then obtain outs where outs: "fst (await_all sched ?ts ?w0) = Inr outs"
    using await_all_resolves by blast
  then have len: "length outs = length us"
    and nth: "\<forall>i < length us. settles (?ts ! i) = Inr (outs ! i)"
    by (simp_all add: await_all_Inr_iff)
  have each: "Inr (outs ! i) =
      (case c i (us ! i) r cid pk of
         Inr g \<Rightarrow> Inr \<lparr>id_pos = i, status = Connected, clientId = Some g\<rparr>
       | Inl ex \<Rightarrow> (Inr \<lparr>id_pos = i, status = Failure, clientId = None\<rparr> :: reason + outcome))"
    if "i < length us" for i
    using nth that by (simp add: settles_connect_task)
  have handled: "\<exists>k < length ?order. ?order ! k = i
      \<and> getClientId (fold (\<lambda>j. handler_of (?ts ! j)) (take (Suc k) ?order) resetClientIds)
           (us ! i) = Some g"
    if "i < length us" "c i (us ! i) r cid pk = Inr g" for i g
  proof -
    from that(1) have "i \<in> set ?order"
      by (simp add: set_settle_order)
    then obtain k where k: "k < length ?order" "?order ! k = i"
      by (auto simp: in_set_conv_nth)
    have "handler_of (?ts ! i) = storeClientId (us ! i) g"
      using that by (simp add: handler_connect_task)
    with k have "getClientId
        (fold (\<lambda>j. handler_of (?ts ! j)) (take (Suc k) ?order) resetClientIds) (us ! i) = Some g"
      by (simp add: take_Suc_conv_app_nth getClientId_def storeClientId_def)
    with k show ?thesis by blast
  qed
  have ex: "clientIdExists ?m (us ! i)" if "i < length us" "c i (us ! i) r cid pk = Inr g" for i g
    unfolding clientIdExists_def connect_store
    by (rule fold_store_exists) (use that in \<open>auto simp: set_settle_order\<close>)
  have exact: "getClientId ?m (us ! i) = Some g"
    if "i < length us" "c i (us ! i) r cid pk = Inr g" "\<forall>j < length us. us ! j = us ! i \<longrightarrow> j = i"
    for i g
    unfolding getClientId_def connect_store
    by (rule fold_store_exact [where i = i]) (use that in \<open>auto simp: set_settle_order\<close>)
  have "id_pos (outs ! i) = i
          \<and> (case c i (us ! i) r cid pk of
               Inr g \<Rightarrow>
                 status (outs ! i) = Connected \<and> clientId (outs ! i) = Some g
                 \<and> (\<exists>k < length ?order. ?order ! k = i
                       \<and> getClientId
                            (fold (\<lambda>j. handler_of (?ts ! j)) (take (Suc k) ?order)
                               resetClientIds)
                            (us ! i) = Some g)
                 \<and> clientIdExists ?m (us ! i)
                 \<and> ((\<forall>j < length us. us ! j = us ! i \<longrightarrow> j = i) \<longrightarrow>
                      getClientId ?m (us ! i) = Some g)
             | Inl ex \<Rightarrow> status (outs ! i) = Failure)" if "i < length us" for i
    using each [OF that] handled [OF that] ex [OF that] exact [OF that]
    by (cases "c i (us ! i) r cid pk") auto
  moreover have "fst (connectToSPDZ c sched us r cid pk w) = Inr outs"
    using outs by (simp add: connectToSPDZ_def Let_def)
  ultimately show ?thesis
    unfolding Let_def using len by blast
qed

subsection \<open>Validation\<close>

lemma verify_url_iff:
  "verifyRequiredKeys ps ''url'' = (\<forall>p \<in> set ps. url p \<noteq> None)"
  by (simp add: verifyRequiredKeys_def has_key_def list_all_iff)

text \<open>
  C8: when an entry of the proxy list has no \<open>url\<close>, disconnectFromSPDZ,
  consumeDataFromProxies and sendInputsToProxies reject with the validation error and
  leave the world untouched: no request is sent and the store is not changed.
\<close>

theorem missing_url_rejects_before_transport:
  assumes "p \<in> set ps" and "url p = None"
  shows "disconnectFromSPDZ d sched ps r w =
           (Inl (Error ''Each spdzProxyList entry must contain keys: url.''), w)
       \<and> consumeDataFromProxies cn dec sched ps r enc t w =
           (Inl (Error ''Each spdzProxyList entry must contain keys: url.''), w)
       \<and> sendInputsToProxies sd hex b64 js sched ps r inputs w =
           (Inl (Error ''Each spdzProxyList entry must contain keys: url.''), w)"
proof -
  from assms have "\<not> verifyRequiredKeys ps ''url''"
    by (auto simp: verify_url_iff)
  then show ?thesis
    by (simp add: disconnectFromSPDZ_def consumeDataFromProxies_def sendInputsToProxies_def)
qed

subsection \<open>disconnectFromSPDZ\<close>

lemma settles_disconnect_task:
  "settles (disconnect_task d m r p i) =
     Inr \<lparr>id_pos = i, status = Disconnected, clientId = None\<rparr>"
  by (simp add: disconnect_task_def split: option.splits sum.splits)

lemma handler_disconnect_task:
  "handler_of (disconnect_task d m r p i) =
     (case url p of
        None \<Rightarrow> (\<lambda>m. m)
      | Some u \<Rightarrow> if clientIdExists m u then removeClientId u else (\<lambda>m. m))"
  by (simp add: disconnect_task_def split: option.splits sum.splits)

lemma fold_remove_none:
  fixes m :: store
  assumes "\<forall>j \<in> set order. h j = (\<lambda>m. m) \<or> (\<exists>u. h j = removeClientId u)"
    and "m k = None \<or> (\<exists>i \<in> set order. h i = removeClientId k)"
  shows "fold h order m k = None"
  using assms
proof (induction order arbitrary: m)
  case Nil
  then show ?case by simp
next
  case (Cons x xs)
  have shape: "\<forall>j \<in> set xs. h j = (\<lambda>m. m) \<or> (\<exists>u. h j = removeClientId u)"
    using Cons.prems(1) by simp
  have "h x m k = None \<or> (\<exists>i \<in> set xs. h i = removeClientId k)"
  proof (cases "h x = removeClientId k")
    case True
    then show ?thesis by (simp add: removeClientId_def)
  next
    case False
    from Cons.prems(1) have "h x = (\<lambda>m. m) \<or> (\<exists>u. h x = removeClientId u)" by simp
    then have "m k = None \<longrightarrow> h x m k = None"
      by (auto simp: removeClientId_def)
    with False Cons.prems(2) show ?thesis by auto
  qed
  with shape have "fold h xs (h x m) k = None"
    by (rule Cons.IH)
  then show ?case by simp
qed

text \<open>
  C5: on a list whose entries all have a url, disconnectFromSPDZ resolves with one
  outcome per entry, outcome \<open>i\<close> carrying id \<open>i\<close> and status Disconnected, whatever the
  transport answers; afterwards the store holds no session for any url of the list.
\<close>

theorem disconnectFromSPDZ_outcomes:
  assumes "verifyRequiredKeys ps ''url''"
  shows "\<exists>outs. fst (disconnectFromSPDZ d sched ps r w) = Inr outs
      \<and> length outs = length ps
      \<and> (\<forall>i < length ps. id_pos (outs ! i) = i \<and> status (outs ! i) = Disconnected)
      \<and> (\<forall>p \<in> set ps. \<forall>u. url p = Some u \<longrightarrow>
            \<not> clientIdExists (clientIds (snd (disconnectFromSPDZ d sched ps r w))) u)"
proof -
  let ?ts = "mapi (disconnect_task d (clientIds w) r) ps"
  have run: "disconnectFromSPDZ d sched ps r w = await_all sched ?ts w"
    using assms by (simp add: disconnectFromSPDZ_def Let_def)
  have "\<forall>i < length ?ts. \<not> isl (settles (?ts ! i))"
    by (simp add: settles_disconnect_task)
  then obtain outs where outs: "fst (await_all sched ?ts w) = Inr outs"
    using await_all_resolves by blast
  then have len: "length outs = length ps"
    and nth: "\<forall>i < length ps. settles (?ts ! i) = Inr (outs ! i)"
    by (simp_all add: await_all_Inr_iff)
  have each: "id_pos (outs ! i) = i \<and> status (outs ! i) = Disconnected"
    if "i < length ps" for i
  proof -
    from nth that have "outs ! i = \<lparr>id_pos = i, status = Disconnected, clientId = None\<rparr>"
      by (simp add: settles_disconnect_task)
    then show ?thesis by simp
  qed
  have gone: "clientIds (snd (await_all sched ?ts w)) u = None"
    if "p \<in> set ps" "url p = Some u" for p u
  proof -
    from that(1) obtain i where i: "i < length ps" "ps ! i = p"
      by (auto simp: in_set_conv_nth)
    have shape: "\<forall>j \<in> set (settle_order sched ?ts).
        handler_of (?ts ! j) = (\<lambda>m. m) \<or> (\<exists>u. handler_of (?ts ! j) = removeClientId u)"
      by (auto simp: set_settle_order handler_disconnect_task split: option.splits)
    have "clientIds w u = None \<or>
        (\<exists>i \<in> set (settle_order sched ?ts). handler_of (?ts ! i) = removeClientId u)"
    proof (cases "clientIdExists (clientIds w) u")
      case True
      with i that(2) have "handler_of (?ts ! i) = removeClientId u"
        by (simp add: handler_disconnect_task)
      with i(1) show ?thesis by (auto simp: set_settle_order)
    next
      case False
      then show ?thesis by (simp add: clientIdExists_def)
    qed
    with shape show ?thesis
      unfolding clientIds_await_all by (rule fold_remove_none)
  qed
  show ?thesis
    unfolding run using outs len each gone by (auto simp: clientIdExists_def)
qed

lemma map_filter_first:
  "List.map_filter f xs = e # es \<Longrightarrow>
     \<exists>k < length xs. f (xs ! k) = Some e \<and> (\<forall>j < k. f (xs ! j) = None)"
proof (induction xs)
  case Nil
  then show ?case by (simp add: map_filter_simps)
next
  case (Cons x xs)
  show ?case
  proof (cases "f x")
    case None
    with Cons.prems have "List.map_filter f xs = e # es"
      by (simp add: map_filter_simps)
    then obtain k where k: "k < length xs" "f (xs ! k) = Some e" "\<forall>j < k. f (xs ! j) = None"
      using Cons.IH by blast
    have "\<forall>j < Suc k. f ((x # xs) ! j) = None"
      using None k(3) by (auto simp: nth_Cons split: nat.splits)
    with k(1,2) show ?thesis
      by (intro exI [of _ "Suc k"]) simp
  next
    case (Some a)
    with Cons.prems have "a = e" by (simp add: map_filter_simps)
    with Some show ?thesis by (intro exI [of _ 0]) simp
  qed
qed

lemma Promise_all_first:
  assumes "Promise_all order rs = Inl e"
  shows "\<exists>k < length order. rs ! (order ! k) = Inl e \<and> (\<forall>j < k. \<not> isl (rs ! (order ! j)))"
proof -
  from assms obtain es where "rejections order rs = e # es"
    by (auto simp: Promise_all_def split: list.splits)
  then obtain k where "k < length order"
    "(case rs ! (order ! k) of Inl e \<Rightarrow> Some e | Inr v \<Rightarrow> None) = Some e"
    "\<forall>j < k. (case rs ! (order ! j) of Inl e \<Rightarrow> Some e | Inr v \<Rightarrow> None) = None"
    unfolding rejections_def by (blast dest: map_filter_first)
  then show ?thesis
    by (intro exI [of _ k]) (auto simp: isl_def split: sum.splits)
qed

subsection \<open>consumeDataFromProxies\<close>

lemma settles_consume_task:
  "settles (consume_task cn dec m r enc t p i) =
     (case url p of
        None \<Rightarrow> Inl (not_connected None)
      | Some u \<Rightarrow>
          if \<not> clientIdExists m u then Inl (not_connected (Some u))
          else (case cn i u r (getClientId m u) t of
                  Inr raw \<Rightarrow> if enc then dec (encryptionKey p) raw else Inr raw
                | Inl ex \<Rightarrow> Inl ex))"
  by (simp add: consume_task_def split: option.splits sum.splits)

lemma consume_run:
  "verifyRequiredKeys ps ''url'' \<Longrightarrow>
     consumeDataFromProxies cn dec sched ps r enc t w =
       await_all sched (mapi (consume_task cn dec (clientIds w) r enc t) ps) w"
  by (simp add: consumeDataFromProxies_def Let_def)

text \<open>
  C2 (amended): consumeDataFromProxies resolves with \<open>payloads\<close> exactly when the list is
  valid, every party has a session, every fetch fulfils and, for every party, the
  payload is the result of decrypt applied to that party's own encryptionKey and its
  raw bytes when the call's argument \<open>encrypted\<close> is true, and the raw bytes unchanged
  when it is false. The toggle is one argument of the call, the same for all parties.
\<close>

theorem consume_payloads:
  "(fst (consumeDataFromProxies cn dec sched ps r enc t w) = Inr payloads) =
     (verifyRequiredKeys ps ''url'' \<and> length payloads = length ps
      \<and> (\<forall>i < length ps. \<exists>u raw.
             url (ps ! i) = Some u \<and> clientIdExists (clientIds w) u
           \<and> cn i u r (getClientId (clientIds w) u) t = Inr raw
           \<and> (if enc then dec (encryptionKey (ps ! i)) raw else Inr raw) = Inr (payloads ! i)))"
proof (cases "verifyRequiredKeys ps ''url''")
  case False
  then show ?thesis by (simp add: consumeDataFromProxies_def)
next
  case True
  have task: "(settles (consume_task cn dec (clientIds w) r enc t p i) = Inr v) =
      (\<exists>u raw. url p = Some u \<and> clientIdExists (clientIds w) u
         \<and> cn i u r (getClientId (clientIds w) u) t = Inr raw
         \<and> (if enc then dec (encryptionKey p) raw else Inr raw) = Inr v)" for p i v
    unfolding settles_consume_task by (auto split: option.splits sum.splits)
  show ?thesis
    unfolding consume_run [OF True] await_all_Inr_iff
    using True by (simp add: task)
qed

text \<open>
  C4: when some entry of the proxy list names an endpoint without a session,
  consumeDataFromProxies rejects: it never resolves with a list of payloads.
\<close>

theorem consume_rejects_without_session:
  assumes "p \<in> set ps" and "url p = Some u" and "\<not> clientIdExists (clientIds w) u"
  shows "\<exists>e. fst (consumeDataFromProxies cn dec sched ps r enc t w) = Inl e"
proof (cases "verifyRequiredKeys ps ''url''")
  case False
  then show ?thesis by (simp add: consumeDataFromProxies_def)
next
  case True
  from assms(1) obtain i where i: "i < length ps" "ps ! i = p"
    by (auto simp: in_set_conv_nth)
  let ?ts = "mapi (consume_task cn dec (clientIds w) r enc t) ps"
  have "isl (settles (?ts ! i))"
    using i assms(2,3) by (simp add: settles_consume_task)
  with i(1) have "isl (fst (await_all sched ?ts w))"
    unfolding await_all_rejects_iff by auto
  then show ?thesis
    unfolding consume_run [OF True] by (auto simp: isl_def)
qed

text \<open>
  C7 (amended): on a valid list, when the fetch of a party with a session rejects with
  NoContentError, consumeDataFromProxies rejects, and the reason the caller gets is the
  reason of the first party promise to reject in settle order, passed on as it is.
  Whichever party promise rejects with none rejecting before it, its reason is the one
  the caller gets: this party's NoContentError when this party is the first to reject,
  another party's reason when that party rejects earlier.
\<close>

theorem consume_no_content:
  assumes valid: "verifyRequiredKeys ps ''url''"
    and i: "i < length ps" "url (ps ! i) = Some u" "clientIdExists (clientIds w) u"
    and nc: "cn i u r (getClientId (clientIds w) u) t = Inl (NoContentError msg)"
  shows "let consumeList = mapi (consume_task cn dec (clientIds w) r enc t) ps;
             order = settle_order sched consumeList
         in set order = {0..<length ps}
          \<and> settles (consumeList ! i) = Inl (NoContentError msg)
          \<and> (\<exists>e. fst (consumeDataFromProxies cn dec sched ps r enc t w) = Inl e
              \<and> (\<exists>k < length order.
                    settles (consumeList ! (order ! k)) = Inl e
                  \<and> (\<forall>j < k. \<not> isl (settles (consumeList ! (order ! j)))))
              \<and> (\<forall>k < length order. \<forall>e'.
                    settles (consumeList ! (order ! k)) = Inl e'
                    \<and> (\<forall>j < k. \<not> isl (settles (consumeList ! (order ! j))))
                    \<longrightarrow> e = e')
              \<and> (\<exists>j < length ps. settles (consumeList ! j) = Inl e)
              \<and> (\<forall>k < length order.
                    order ! k = i \<and> (\<forall>j < k. \<not> isl (settles (consumeList ! (order ! j))))
                    \<longrightarrow> e = NoContentError msg))"
proof -
  let ?ts = "mapi (consume_task cn dec (clientIds w) r enc t) ps"
  let ?order = "settle_order sched ?ts"
  have perm: "set ?order = {0..<length ps}"
    by (simp add: set_settle_order)
  have mine: "settles (?ts ! i) = Inl (NoContentError msg)"
    using i nc by (simp add: settles_consume_task)
  with i(1) have "isl (fst (await_all sched ?ts w))"
    unfolding await_all_rejects_iff by auto
  then obtain e where e: "fst (await_all sched ?ts w) = Inl e"
    by (auto simp: isl_def)
  then obtain j where j: "j < length ps" "settles (?ts ! j) = Inl e"
    by (auto dest: await_all_Inl)
  have inb: "?order ! n < length ?ts" if "n < length ?order" for n
    using nth_mem [OF that] by (simp add: set_settle_order)
  from e obtain k' where "k' < length ?order" "map settles ?ts ! (?order ! k') = Inl e"
    "\<forall>j < k'. \<not> isl (map settles ?ts ! (?order ! j))"
    unfolding fst_await_all by (blast dest: Promise_all_first)
  then have k': "k' < length ?order" "settles (?ts ! (?order ! k')) = Inl e"
    "\<forall>j < k'. \<not> isl (settles (?ts ! (?order ! j)))"
    using inb by (auto simp: less_trans)
  have first: "e = e'"
    if k: "k < length ?order" "settles (?ts ! (?order ! k)) = Inl e'"
      "\<forall>j < k. \<not> isl (settles (?ts ! (?order ! j)))" for k e'
  proof -
    have "\<not> k' < k"
      using k(3) k'(2) by auto
    moreover have "\<not> k < k'"
      using k(2) k'(3) by auto
    ultimately have "k' = k" by simp
    with k'(2) k(2) show ?thesis by simp
  qed
  have first_nc: "e = NoContentError msg"
    if "k < length ?order" "?order ! k = i"
      "\<forall>j < k. \<not> isl (settles (?ts ! (?order ! j)))" for k
    using first [of k "NoContentError msg"] that mine by simp
  have "\<exists>k < length ?order.
      settles (?ts ! (?order ! k)) = Inl e
      \<and> (\<forall>j < k. \<not> isl (settles (?ts ! (?order ! j))))"
    using k' by blast
  moreover have "\<forall>k < length ?order. \<forall>e'.
      settles (?ts ! (?order ! k)) = Inl e'
      \<and> (\<forall>j < k. \<not> isl (settles (?ts ! (?order ! j)))) \<longrightarrow> e = e'"
    using first by blast
  moreover have "\<exists>j < length ps. settles (?ts ! j) = Inl e"
    using j by blast
  moreover have "\<forall>k < length ?order.
      ?order ! k = i \<and> (\<forall>j < k. \<not> isl (settles (?ts ! (?order ! j))))
      \<longrightarrow> e = NoContentError msg"
    using first_nc by blast
  ultimately show ?thesis
    unfolding consume_run [OF valid] Let_def
    using e perm mine by blast
qed

subsection \<open>sendInputsToProxies\<close>

lemma settles_send_task:
  "settles (send_task sd js m r payload p i) =
     (case url p of
        None \<Rightarrow> Inl (not_connected None)
      | Some u \<Rightarrow>
          if \<not> clientIdExists m u then Inl (not_connected (Some u))
          else sd i u r (getClientId m u) (js payload))"
  by (simp add: send_task_def split: option.splits)

lemma requests_send:
  "concat (map (\<lambda>(index, p). request_of (send_task sd js m r payload p index))
             (List.enumerate n ps)) =
     map (\<lambda>u. SendReq u r (getClientId m u) (js payload))
       (filter (clientIdExists m) (List.map_filter url ps))"
  by (induction ps arbitrary: n)
    (auto simp: send_task_def map_filter_simps split: option.splits)

lemma send_run:
  "verifyRequiredKeys ps ''url'' \<Longrightarrow>
     sendInputsToProxies sd hex b64 js sched ps r inputs w =
       await_all sched
         (mapi (send_task sd js (clientIds w) r (map (\<lambda>g. b64 (hex g)) inputs)) ps) w"
  by (simp add: sendInputsToProxies_def Let_def)

text \<open>
  C9: on a valid list, sendInputsToProxies sends one request to every party with a
  session, each with the same body, the serialisation of the encoded input list; the
  call rejects exactly when some party has no session or its send rejects; and it
  resolves only with one acknowledgement per party, each party's send having fulfilled.
\<close>

theorem sendInputsToProxies_all_or_nothing:
  assumes valid: "verifyRequiredKeys ps ''url''"
  shows "let payload = js (map (\<lambda>g. b64 (hex g)) inputs);
             result = sendInputsToProxies sd hex b64 js sched ps r inputs w
         in sent (snd result) =
              sent w @ map (\<lambda>u. SendReq u r (getClientId (clientIds w) u) payload)
                         (filter (clientIdExists (clientIds w)) (List.map_filter url ps))
          \<and> ((\<exists>e. fst result = Inl e) =
               (\<exists>i < length ps. \<exists>u. url (ps ! i) = Some u
                  \<and> (\<not> clientIdExists (clientIds w) u
                       \<or> isl (sd i u r (getClientId (clientIds w) u) payload))))
          \<and> (\<forall>acks. fst result = Inr acks \<longrightarrow>
                length acks = length ps
              \<and> (\<forall>i < length ps. \<exists>u. url (ps ! i) = Some u \<and> clientIdExists (clientIds w) u
                    \<and> sd i u r (getClientId (clientIds w) u) payload = Inr (acks ! i)))"
proof -
  let ?payload = "map (\<lambda>g. b64 (hex g)) inputs"
  let ?ts = "mapi (send_task sd js (clientIds w) r ?payload) ps"
  have urls: "\<forall>i < length ps. \<exists>u. url (ps ! i) = Some u"
    using valid by (auto simp: verify_url_iff)
  have log: "sent (snd (await_all sched ?ts w)) =
      sent w @ map (\<lambda>u. SendReq u r (getClientId (clientIds w) u) (js ?payload))
                 (filter (clientIdExists (clientIds w)) (List.map_filter url ps))"
    by (simp add: sent_await_all mapi_def map_map comp_def case_prod_unfold
        requests_send [unfolded case_prod_unfold])
  have rej: "(\<exists>e. fst (await_all sched ?ts w) = Inl e) =
      (\<exists>i < length ps. \<exists>u. url (ps ! i) = Some u
          \<and> (\<not> clientIdExists (clientIds w) u
               \<or> isl (sd i u r (getClientId (clientIds w) u) (js ?payload))))"
  proof -
    have per: "isl (settles (?ts ! i)) =
        (\<exists>u. url (ps ! i) = Some u
           \<and> (\<not> clientIdExists (clientIds w) u
                \<or> isl (sd i u r (getClientId (clientIds w) u) (js ?payload))))"
      if "i < length ps" for i
    proof -
      from urls that obtain u where "url (ps ! i) = Some u" by blast
      with that show ?thesis by (simp add: settles_send_task)
    qed
    have "(\<exists>e. fst (await_all sched ?ts w) = Inl e) = isl (fst (await_all sched ?ts w))"
      by (auto simp: isl_def)
    also have "\<dots> = (\<exists>i < length ps. isl (settles (?ts ! i)))"
      by (simp add: await_all_rejects_iff)
    also have "\<dots> = (\<exists>i < length ps. \<exists>u. url (ps ! i) = Some u
          \<and> (\<not> clientIdExists (clientIds w) u
               \<or> isl (sd i u r (getClientId (clientIds w) u) (js ?payload))))"
      using per by auto
    finally show ?thesis .
  qed
  have ack: "length acks = length ps
      \<and> (\<forall>i < length ps. \<exists>u. url (ps ! i) = Some u \<and> clientIdExists (clientIds w) u
            \<and> sd i u r (getClientId (clientIds w) u) (js ?payload) = Inr (acks ! i))"
    if "fst (await_all sched ?ts w) = Inr acks" for acks
  proof -
    from that have len: "length acks = length ps"
      and nth: "\<forall>i < length ps. settles (?ts ! i) = Inr (acks ! i)"
      by (simp_all add: await_all_Inr_iff)
    have "\<exists>u. url (ps ! i) = Some u \<and> clientIdExists (clientIds w) u
            \<and> sd i u r (getClientId (clientIds w) u) (js ?payload) = Inr (acks ! i)"
      if "i < length ps" for i
      using nth that by (auto simp: settles_send_task split: option.splits if_splits)
    with len show ?thesis by blast
  qed
  show ?thesis
    unfolding send_run [OF valid] Let_def
    using log rej ack by blast
qed

section \<open>Concrete runs\<close>

lemma upt_0_2: "[0..<2] = [0, 1]"
  by (simp add: upt_rec)

lemma upt_0_3: "[0..<3] = [0, 1, 2]"
  by (simp add: upt_rec)

lemmas run_defs =
  await_all_def settle_order_def Promise_all_def rejections_def fulfilments_def mapi_def
  map_filter_simps Let_def clientIdExists_def getClientId_def storeClientId_def
  removeClientId_def resetClientIds_def verifyRequiredKeys_def has_key_def not_connected_def
  upt_0_2 upt_0_3

text \<open>
  The scenario of the specification: endpoints A, B, C, the connect to B refused.
\<close>

theorem connectToSPDZ_outcomes_witness:
  "fst (connectToSPDZ
          (\<lambda>i u r cid pk. if i = 1 then Inl (Error ''refused'') else Inr (''session-'' @ u))
          [2, 0, 1] [''A'', ''B'', ''C''] ''/spdzapi'' None None
          \<lparr>clientIds = Map.empty, sent = []\<rparr>)
     = Inr [\<lparr>id_pos = 0, status = Connected, clientId = Some ''session-A''\<rparr>,
            \<lparr>id_pos = 1, status = Failure, clientId = None\<rparr>,
            \<lparr>id_pos = 2, status = Connected, clientId = Some ''session-C''\<rparr>]
   \<and> getClientId (clientIds (snd (connectToSPDZ
          (\<lambda>i u r cid pk. if i = 1 then Inl (Error ''refused'') else Inr (''session-'' @ u))
          [2, 0, 1] [''A'', ''B'', ''C''] ''/spdzapi'' None None
          \<lparr>clientIds = Map.empty, sent = []\<rparr>))) ''C'' = Some ''session-C''"
  using connectToSPDZ_outcomes [where
      c = "\<lambda>i u r cid pk. if i = 1 then Inl (Error ''refused'') else Inr (''session-'' @ u)"
      and sched = "[2, 0, 1]" and us = "[''A'', ''B'', ''C'']" and r = "''/spdzapi''"
      and cid = None and pk = None and w = "\<lparr>clientIds = Map.empty, sent = []\<rparr>"]
  by (simp add: connectToSPDZ_def connect_task_def run_defs)

text \<open>
  The same url twice, both connects fulfilled with different client ids: the response
  handled last decides which client id the store keeps.
\<close>

lemma connectToSPDZ_duplicate_url:
  "getClientId (clientIds (snd (connectToSPDZ
          (\<lambda>i u r cid pk. Inr (if i = 0 then ''g0'' else ''g1''))
          [1, 0] [''A'', ''A''] ''/spdzapi'' None None
          \<lparr>clientIds = Map.empty, sent = []\<rparr>))) ''A'' = Some ''g0''
   \<and> getClientId (clientIds (snd (connectToSPDZ
          (\<lambda>i u r cid pk. Inr (if i = 0 then ''g0'' else ''g1''))
          [0, 1] [''A'', ''A''] ''/spdzapi'' None None
          \<lparr>clientIds = Map.empty, sent = []\<rparr>))) ''A'' = Some ''g1''"
  by (simp add: connectToSPDZ_def connect_task_def run_defs)

text \<open>
  Three urls, the second without a session, the check of the third rejected.
\<close>

theorem checkProxies_outcomes_witness:
  "fst (checkProxies (\<lambda>i u r cid. if i = 0 then Inr () else Inl (Error ''gone''))
          [2, 0] [''A'', ''B'', ''C''] ''/spdzapi''
          \<lparr>clientIds = [''A'' \<mapsto> ''a'', ''C'' \<mapsto> ''c''], sent = []\<rparr>)
     = Inr [\<lparr>id_pos = 0, status = Connected, clientId = None\<rparr>,
            \<lparr>id_pos = 1, status = Failure, clientId = None\<rparr>,
            \<lparr>id_pos = 2, status = Disconnected, clientId = None\<rparr>]
   \<and> sent (snd (checkProxies (\<lambda>i u r cid. if i = 0 then Inr () else Inl (Error ''gone''))
          [2, 0] [''A'', ''B'', ''C''] ''/spdzapi''
          \<lparr>clientIds = [''A'' \<mapsto> ''a'', ''C'' \<mapsto> ''c''], sent = []\<rparr>))
     = [CheckReq ''A'' ''/spdzapi'' (Some ''a''), CheckReq ''C'' ''/spdzapi'' (Some ''c'')]"
  using checkProxies_outcomes [where
      c = "\<lambda>i u r cid. if i = 0 then Inr () else Inl (Error ''gone'')"
      and sched = "[2, 0]" and us = "[''A'', ''B'', ''C'']" and r = "''/spdzapi''"
      and w = "\<lparr>clientIds = [''A'' \<mapsto> ''a'', ''C'' \<mapsto> ''c''], sent = []\<rparr>"]
  by (simp add: checkProxies_def check_task_def run_defs)

text \<open>
  The store after a check with a rejected call is the store before.
\<close>

theorem checkProxies_keeps_store_witness:
  "clientIds (snd (checkProxies (\<lambda>i u r cid. if i = 0 then Inr () else Inl (Error ''gone''))
          [1] [''A'', ''B'', ''C''] ''/spdzapi''
          \<lparr>clientIds = [''A'' \<mapsto> ''a'', ''C'' \<mapsto> ''c''], sent = []\<rparr>))
     = [''A'' \<mapsto> ''a'', ''C'' \<mapsto> ''c'']"
  using checkProxies_keeps_store [where
      c = "\<lambda>i u r cid. if i = 0 then Inr () else Inl (Error ''gone'')"
      and sched = "[1]" and us = "[''A'', ''B'', ''C'']" and r = "''/spdzapi''"
      and w = "\<lparr>clientIds = [''A'' \<mapsto> ''a'', ''C'' \<mapsto> ''c''], sent = []\<rparr>"]
  by simp

text \<open>
  Two proxies, the first with a session whose remote disconnect is rejected.
\<close>

theorem disconnectFromSPDZ_outcomes_witness:
  "verifyRequiredKeys
     [\<lparr>url = Some ''A'', encryptionKey = None\<rparr>, \<lparr>url = Some ''B'', encryptionKey = None\<rparr>]
     ''url''
   \<and> fst (disconnectFromSPDZ (\<lambda>i u r cid. Inl (Error ''unreachable'')) [0]
          [\<lparr>url = Some ''A'', encryptionKey = None\<rparr>, \<lparr>url = Some ''B'', encryptionKey = None\<rparr>]
          ''/spdzapi'' \<lparr>clientIds = [''A'' \<mapsto> ''a''], sent = []\<rparr>)
     = Inr [\<lparr>id_pos = 0, status = Disconnected, clientId = None\<rparr>,
            \<lparr>id_pos = 1, status = Disconnected, clientId = None\<rparr>]
   \<and> \<not> clientIdExists
        (clientIds (snd (disconnectFromSPDZ (\<lambda>i u r cid. Inl (Error ''unreachable'')) [0]
          [\<lparr>url = Some ''A'', encryptionKey = None\<rparr>, \<lparr>url = Some ''B'', encryptionKey = None\<rparr>]
          ''/spdzapi'' \<lparr>clientIds = [''A'' \<mapsto> ''a''], sent = []\<rparr>))) ''A''"
proof -
  have valid: "verifyRequiredKeys
     [\<lparr>url = Some ''A'', encryptionKey = None\<rparr>, \<lparr>url = Some ''B'', encryptionKey = None\<rparr>]
     ''url''"
    by (simp add: verifyRequiredKeys_def has_key_def)
  show ?thesis
    using valid disconnectFromSPDZ_outcomes [where
        d = "\<lambda>i u r cid. Inl (Error ''unreachable'')" and sched = "[0]"
        and r = "''/spdzapi''" and w = "\<lparr>clientIds = [''A'' \<mapsto> ''a''], sent = []\<rparr>",
        OF valid]
    by (simp add: disconnectFromSPDZ_def disconnect_task_def run_defs)
qed

text \<open>
  A list whose second entry has no url: the three calls reject and the world is the
  same as before.
\<close>

theorem missing_url_rejects_before_transport_witness:
  "\<lparr>url = None, encryptionKey = Some ''k''\<rparr>
     \<in> set [\<lparr>url = Some ''A'', encryptionKey = None\<rparr>, \<lparr>url = None, encryptionKey = Some ''k''\<rparr>]
   \<and> url \<lparr>url = None, encryptionKey = Some ''k''\<rparr> = None
   \<and> sendInputsToProxies (\<lambda>i u r cid body. Inr ()) (\<lambda>g. g) (\<lambda>s. s) concat []
        [\<lparr>url = Some ''A'', encryptionKey = None\<rparr>, \<lparr>url = None, encryptionKey = Some ''k''\<rparr>]
        ''/spdzapi'' [''2a'']
        \<lparr>clientIds = [''A'' \<mapsto> ''a''], sent = []\<rparr>
     = (Inl (Error ''Each spdzProxyList entry must contain keys: url.''),
        \<lparr>clientIds = [''A'' \<mapsto> ''a''], sent = []\<rparr>)"
proof -
  have mem: "\<lparr>url = None, encryptionKey = Some ''k''\<rparr>
     \<in> set [\<lparr>url = Some ''A'', encryptionKey = None\<rparr>, \<lparr>url = None, encryptionKey = Some ''k''\<rparr>]"
    by simp
  have none: "url \<lparr>url = None, encryptionKey = Some ''k''\<rparr> = None"
    by simp
  from missing_url_rejects_before_transport [where
      sd = "\<lambda>i u r cid body. Inr ()" and hex = "\<lambda>g. g" and ?b64.0 = "\<lambda>s. s" and js = concat
      and sched = "[]" and r = "''/spdzapi''" and inputs = "[''2a'']"
      and w = "\<lparr>clientIds = [''A'' \<mapsto> ''a''], sent = []\<rparr>", OF mem none]
  show ?thesis using mem none by blast
qed

text \<open>
  C2 as stated fails: the same party record, with the same session and the same raw
  bytes, gets its payload decrypted in one call and returned raw in another. What
  decides is the argument \<open>encrypted\<close> of the call, not anything on the party record.
\<close>

theorem consume_flag_is_call_wide_counterexample:
  "fst (consumeDataFromProxies (\<lambda>i u r cid t. Inr [1, 2, 3]) (\<lambda>k b. Inr (rev b)) []
          [\<lparr>url = Some ''A'', encryptionKey = Some ''k''\<rparr>] ''/spdzapi'' True 0
          \<lparr>clientIds = [''A'' \<mapsto> ''a''], sent = []\<rparr>) = Inr [[3, 2, 1]]
   \<and> fst (consumeDataFromProxies (\<lambda>i u r cid t. Inr [1, 2, 3]) (\<lambda>k b. Inr (rev b)) []
          [\<lparr>url = Some ''A'', encryptionKey = Some ''k''\<rparr>] ''/spdzapi'' False 0
          \<lparr>clientIds = [''A'' \<mapsto> ''a''], sent = []\<rparr>) = Inr [[1, 2, 3]]"
  by (simp add: consumeDataFromProxies_def consume_task_def run_defs)

text \<open>
  Two parties with keys of their own; each payload is decrypted with its party's key.
\<close>

theorem consume_payloads_witness:
  "fst (consumeDataFromProxies
          (\<lambda>i u r cid t. if i = 0 then Inr [1, 2, 3] else Inr [5, 6])
          (\<lambda>k b. case k of None \<Rightarrow> Inl (Error ''no key'') | Some key \<Rightarrow> Inr (length key # b))
          [1, 0]
          [\<lparr>url = Some ''A'', encryptionKey = Some ''k''\<rparr>,
           \<lparr>url = Some ''B'', encryptionKey = Some ''key''\<rparr>]
          ''/spdzapi'' True 0
          \<lparr>clientIds = [''A'' \<mapsto> ''a'', ''B'' \<mapsto> ''b''], sent = []\<rparr>)
     = Inr [[1, 1, 2, 3], [3, 5, 6]]"
  using consume_payloads [where
      cn = "\<lambda>i u r cid t. if i = 0 then Inr [1, 2, 3] else Inr [5, 6]"
      and dec = "\<lambda>k b. case k of None \<Rightarrow> Inl (Error ''no key'')
                          | Some key \<Rightarrow> Inr (length key # b)"
      and sched = "[1, 0]"
      and ps = "[\<lparr>url = Some ''A'', encryptionKey = Some ''k''\<rparr>,
                 \<lparr>url = Some ''B'', encryptionKey = Some ''key''\<rparr>]"
      and r = "''/spdzapi''" and enc = True and t = 0
      and w = "\<lparr>clientIds = [''A'' \<mapsto> ''a'', ''B'' \<mapsto> ''b''], sent = []\<rparr>"
      and payloads = "[[1, 1, 2, 3], [3, 5, 6]]"]
  by (simp add: verifyRequiredKeys_def has_key_def clientIdExists_def getClientId_def
      less_Suc_eq numeral_2_eq_2)

text \<open>
  Party A has a session and data, party B has no session: the call rejects.
\<close>

theorem consume_rejects_without_session_witness:
  "\<lparr>url = Some ''B'', encryptionKey = None\<rparr>
     \<in> set [\<lparr>url = Some ''A'', encryptionKey = None\<rparr>, \<lparr>url = Some ''B'', encryptionKey = None\<rparr>]
   \<and> url \<lparr>url = Some ''B'', encryptionKey = None\<rparr> = Some ''B''
   \<and> \<not> clientIdExists [''A'' \<mapsto> ''a''] ''B''
   \<and> fst (consumeDataFromProxies (\<lambda>i u r cid t. Inr [1, 2, 3]) (\<lambda>k b. Inr b) [0]
          [\<lparr>url = Some ''A'', encryptionKey = None\<rparr>, \<lparr>url = Some ''B'', encryptionKey = None\<rparr>]
          ''/spdzapi'' False 0 \<lparr>clientIds = [''A'' \<mapsto> ''a''], sent = []\<rparr>)
     = Inl (Error ''Not connected to SPDZ for proxy B.'')"
proof -
  have mem: "\<lparr>url = Some ''B'', encryptionKey = None\<rparr>
     \<in> set [\<lparr>url = Some ''A'', encryptionKey = None\<rparr>, \<lparr>url = Some ''B'', encryptionKey = None\<rparr>]"
    by simp
  have u: "url \<lparr>url = Some ''B'', encryptionKey = None\<rparr> = Some ''B''"
    by simp
  have none: "\<not> clientIdExists (clientIds \<lparr>clientIds = [''A'' \<mapsto> ''a''], sent = []\<rparr>) ''B''"
    by (simp add: clientIdExists_def)
  show ?thesis
    using mem u none
      consume_rejects_without_session [where
        cn = "\<lambda>i u r cid t. Inr [1, 2, 3]" and dec = "\<lambda>k b. Inr b" and sched = "[0]"
        and r = "''/spdzapi''" and enc = False and t = 0, OF mem u none]
    by (simp add: consumeDataFromProxies_def consume_task_def run_defs)
qed

text \<open>
  C7 as stated fails: party B has a session and reports no data yet, party A has no
  session. The caller gets the plain Error about A, not the NoContentError.
\<close>

theorem consume_no_content_counterexample:
  "fst (consumeDataFromProxies (\<lambda>i u r cid t. Inl (NoContentError ''No data''))
          (\<lambda>k b. Inr b) [1, 0]
          [\<lparr>url = Some ''A'', encryptionKey = None\<rparr>, \<lparr>url = Some ''B'', encryptionKey = None\<rparr>]
          ''/spdzapi'' False 0 \<lparr>clientIds = [''B'' \<mapsto> ''b''], sent = []\<rparr>)
     = Inl (Error ''Not connected to SPDZ for proxy A.'')"
  by (simp add: consumeDataFromProxies_def consume_task_def run_defs)

text \<open>
  Two runs. In the first, party B reports no data yet and its response arrives first,
  party A delivers: the caller gets the NoContentError. In the second, party A has no
  session, so its promise is rejected before B's response arrives: the caller gets the
  Error about A.
\<close>

theorem consume_no_content_witness:
  "verifyRequiredKeys
     [\<lparr>url = Some ''A'', encryptionKey = None\<rparr>, \<lparr>url = Some ''B'', encryptionKey = None\<rparr>]
     ''url''
   \<and> clientIdExists [''A'' \<mapsto> ''a'', ''B'' \<mapsto> ''b''] ''B''
   \<and> fst (consumeDataFromProxies
          (\<lambda>i u r cid t. if i = 1 then Inl (NoContentError ''No data'') else Inr [7])
          (\<lambda>k b. Inr b) [1, 0]
          [\<lparr>url = Some ''A'', encryptionKey = None\<rparr>, \<lparr>url = Some ''B'', encryptionKey = None\<rparr>]
          ''/spdzapi'' False 0
          \<lparr>clientIds = [''A'' \<mapsto> ''a'', ''B'' \<mapsto> ''b''], sent = []\<rparr>)
     = Inl (NoContentError ''No data'')
   \<and> clientIdExists [''B'' \<mapsto> ''b''] ''B''
   \<and> fst (consumeDataFromProxies
          (\<lambda>i u r cid t. if i = 1 then Inl (NoContentError ''No data'') else Inr [7])
          (\<lambda>k b. Inr b) [1, 0]
          [\<lparr>url = Some ''A'', encryptionKey = None\<rparr>, \<lparr>url = Some ''B'', encryptionKey = None\<rparr>]
          ''/spdzapi'' False 0
          \<lparr>clientIds = [''B'' \<mapsto> ''b''], sent = []\<rparr>)
     = Inl (Error ''Not connected to SPDZ for proxy A.'')"
proof -
  let ?ps = "[\<lparr>url = Some ''A'', encryptionKey = None\<rparr>, \<lparr>url = Some ''B'', encryptionKey = None\<rparr>]"
  let ?w = "\<lparr>clientIds = [''A'' \<mapsto> ''a'', ''B'' \<mapsto> ''b''], sent = []\<rparr>"
  let ?v = "\<lparr>clientIds = [''B'' \<mapsto> ''b''], sent = []\<rparr>"
  let ?cn = "\<lambda>i u r cid t. if i = (1::nat) then Inl (NoContentError ''No data'') else Inr [7::nat]"
  have valid: "verifyRequiredKeys ?ps ''url''"
    by (simp add: verifyRequiredKeys_def has_key_def)
  have i: "(1::nat) < length ?ps" "url (?ps ! 1) = Some ''B''"
    "clientIdExists (clientIds ?w) ''B''"
    by (simp_all add: clientIdExists_def)
  have nc: "?cn 1 ''B'' ''/spdzapi'' (getClientId (clientIds ?w) ''B'') 0
              = Inl (NoContentError ''No data'')"
    by simp
  have i': "clientIdExists (clientIds ?v) ''B''"
    by (simp add: clientIdExists_def)
  have nc': "?cn 1 ''B'' ''/spdzapi'' (getClientId (clientIds ?v) ''B'') 0
              = Inl (NoContentError ''No data'')"
    by simp
  show ?thesis
    using valid i(3) i'
      consume_no_content [where cn = ?cn and t = 0 and r = "''/spdzapi''"
          and msg = "''No data''" and dec = "\<lambda>k b. Inr b" and enc = False
          and sched = "[1, 0]", OF valid i nc]
      consume_no_content [where cn = ?cn and t = 0 and r = "''/spdzapi''"
          and msg = "''No data''" and dec = "\<lambda>k b. Inr b" and enc = False
          and sched = "[1, 0]", OF valid i(1,2) i' nc']
    by (simp add: consumeDataFromProxies_def consume_task_def run_defs)
qed

text \<open>
  Two parties with sessions, two inputs: both receive the same body.
\<close>

theorem sendInputsToProxies_all_or_nothing_witness:
  "verifyRequiredKeys
     [\<lparr>url = Some ''A'', encryptionKey = None\<rparr>, \<lparr>url = Some ''B'', encryptionKey = None\<rparr>]
     ''url''
   \<and> sendInputsToProxies (\<lambda>i u r cid body. Inr ()) (\<lambda>g. ''0x'' @ g) (\<lambda>s. s @ ''='') concat
        [1, 0]
        [\<lparr>url = Some ''A'', encryptionKey = None\<rparr>, \<lparr>url = Some ''B'', encryptionKey = None\<rparr>]
        ''/spdzapi'' [''2a'', ''ff'']
        \<lparr>clientIds = [''A'' \<mapsto> ''a'', ''B'' \<mapsto> ''b''], sent = []\<rparr>
     = (Inr [(), ()],
        \<lparr>clientIds = [''A'' \<mapsto> ''a'', ''B'' \<mapsto> ''b''],
         sent = [SendReq ''A'' ''/spdzapi'' (Some ''a'') ''0x2a=0xff='',
                 SendReq ''B'' ''/spdzapi'' (Some ''b'') ''0x2a=0xff='']\<rparr>)"
proof -
  have valid: "verifyRequiredKeys
     [\<lparr>url = Some ''A'', encryptionKey = None\<rparr>, \<lparr>url = Some ''B'', encryptionKey = None\<rparr>]
     ''url''"
    by (simp add: verifyRequiredKeys_def has_key_def)
  show ?thesis
    using valid
      sendInputsToProxies_all_or_nothing [where
        js = concat and ?b64.0 = "\<lambda>s. s @ ''=''" and hex = "\<lambda>g. ''0x'' @ g"
        and inputs = "[''2a'', ''ff'']" and sd = "\<lambda>i u r cid body. Inr ()"
        and sched = "[1, 0]" and r = "''/spdzapi''"
        and w = "\<lparr>clientIds = [''A'' \<mapsto> ''a'', ''B'' \<mapsto> ''b''], sent = []\<rparr>",
        OF valid]
    by (simp add: sendInputsToProxies_def send_task_def run_defs)
qed

end
